theory Spec2Isabelle
  imports Complex_Main
begin

section \<open>Python values\<close>

text \<open>
  The values that flow through \<^verbatim>\<open>langChainAgent.py\<close> come from JSON documents
  (model replies, search hits): None, booleans, integers, strings, lists and dicts with
  string keys. A dict is an association list read with \<open>map_of\<close>; a \<open>char\<close> stands for
  one code point of a Python \<open>str\<close>. Floating-point numbers are left out.
\<close>

datatype pyval =
    PNone
  | PBool bool
  | PInt int
  | PStr string
  | PList "pyval list"
  | PDict "(string \<times> pyval) list"

type_synonym pydict = "(string \<times> pyval) list"

datatype field_error =
    Missing string
  | Invalid string

datatype py_error =
    TypeError
  | KeyError
  | JSONDecodeError string
  | RecursionError
  | ValueError string
  | ValidationError "field_error list"
  | RuntimeError string
  | ServiceError string
  | GraphRecursionError

text \<open>Truthiness, as \<^verbatim>\<open>or\<close>, \<^verbatim>\<open>not\<close> and \<^verbatim>\<open>if\<close> test it.\<close>

fun truthy :: "pyval \<Rightarrow> bool" where
  "truthy PNone = False"
| "truthy (PBool b) = b"
| "truthy (PInt i) = (i \<noteq> 0)"
| "truthy (PStr s) = (s \<noteq> [])"
| "truthy (PList xs) = (xs \<noteq> [])"
| "truthy (PDict kvs) = (kvs \<noteq> [])"

text \<open>\<^verbatim>\<open>a or b\<close>: the first operand when it is truthy, the second otherwise.\<close>

definition py_or :: "pyval \<Rightarrow> pyval \<Rightarrow> pyval" where
  "py_or a b = (if truthy a then a else b)"

text \<open>\<^verbatim>\<open>r.get(k)\<close>: the value stored under the key, None when the key is absent.\<close>

definition get :: "pydict \<Rightarrow> string \<Rightarrow> pyval" where
  "get r k = (case map_of r k of None \<Rightarrow> PNone | Some v \<Rightarrow> v)"

text \<open>\<^verbatim>\<open>r.get(k, d)\<close>: the default \<open>d\<close> only when the key is absent.\<close>

definition get_default :: "pydict \<Rightarrow> string \<Rightarrow> pyval \<Rightarrow> pyval" where
  "get_default r k d = (case map_of r k of None \<Rightarrow> d | Some v \<Rightarrow> v)"

text \<open>
  \<^verbatim>\<open>v[:600]\<close>: strings and lists are sliced; None, booleans and integers are not
  subscriptable, and a dict cannot be indexed by a slice; each of them raises.
\<close>

fun slice600 :: "pyval \<Rightarrow> py_error + pyval" where
  "slice600 (PStr s) = Inr (PStr (take 600 s))"
| "slice600 (PList xs) = Inr (PList (take 600 xs))"
| "slice600 _ = Inl TypeError"

text \<open>Lists and dicts are unhashable: using one as a set element raises TypeError.\<close>

fun hashable :: "pyval \<Rightarrow> bool" where
  "hashable (PList _) = False"
| "hashable (PDict _) = False"
| "hashable _ = True"

text \<open>
  Set membership compares with \<^verbatim>\<open>==\<close>, and \<open>bool\<close> is a subclass of \<open>int\<close>:
  \<^verbatim>\<open>True == 1\<close> and \<^verbatim>\<open>False == 0\<close>. \<open>key_of\<close> maps a hashable value to the
  representative of its equality class.
\<close>

fun key_of :: "pyval \<Rightarrow> pyval" where
  "key_of (PBool b) = PInt (if b then 1 else 0)"
| "key_of v = v"

section \<open>The evidence normalizer\<close>

text \<open>
  The first loop of \<^verbatim>\<open>normalize_research\<close>: every hit becomes a dict with the keys
  title, url and snippet, appended to \<open>out\<close>. The slice is the only step that can raise.
\<close>

fun map_loop :: "pydict list \<Rightarrow> pydict list \<Rightarrow> py_error + pydict list" where
  "map_loop [] out = Inr out"
| "map_loop (r # rs) out =
     (case slice600 (py_or (get r ''content'') (py_or (get r ''snippet'') (PStr ''''))) of
        Inl e \<Rightarrow> Inl e
      | Inr s \<Rightarrow>
          map_loop rs (out @ [[(''title'', py_or (get r ''title'') (PStr ''(no title)'')),
                               (''url'', py_or (get r ''url'') (PStr '''')),
                               (''snippet'', s)]]))"

text \<open>
  The second loop: \<open>seen\<close> is the set of urls met so far, \<open>dedup\<close> the items kept.
  \<^verbatim>\<open>r["url"]\<close> raises KeyError on a dict without the key, and the membership test
  hashes the url.
\<close>

fun dedup_loop :: "pydict list \<Rightarrow> pyval set \<Rightarrow> pydict list \<Rightarrow> py_error + pydict list" where
  "dedup_loop [] seen dedup = Inr dedup"
| "dedup_loop (r # rs) seen dedup =
     (case map_of r ''url'' of
        None \<Rightarrow> Inl KeyError
      | Some u \<Rightarrow>
          if \<not> hashable u then Inl TypeError
          else if key_of u \<in> seen then dedup_loop rs seen dedup
          else dedup_loop rs (insert (key_of u) seen) (dedup @ [r]))"

text \<open>\<^verbatim>\<open>items or []\<close>: None and the empty list both give no hits.\<close>

definition normalize_research :: "pydict list option \<Rightarrow> py_error + pydict list" where
  "normalize_research items =
     (case map_loop (case items of None \<Rightarrow> [] | Some xs \<Rightarrow> xs) [] of
        Inl e \<Rightarrow> Inl e
      | Inr out \<Rightarrow> dedup_loop out {} [])"

subsection \<open>What the normalizer is meant to compute\<close>

text \<open>The value the snippet is cut from: content, else snippet, else the empty string.\<close>

definition snippet_source :: "pydict \<Rightarrow> pyval" where
  "snippet_source r = py_or (get r ''content'') (py_or (get r ''snippet'') (PStr ''''))"

fun cut600 :: "pyval \<Rightarrow> pyval" where
  "cut600 (PStr s) = PStr (take 600 s)"
| "cut600 (PList xs) = PList (take 600 xs)"
| "cut600 v = v"

text \<open>The evidence item of one raw hit, as section 4.3 of the specification words it.\<close>

definition evidence_item :: "pydict \<Rightarrow> pydict" where
  "evidence_item r =
     [(''title'', py_or (get r ''title'') (PStr ''(no title)'')),
      (''url'', py_or (get r ''url'') (PStr '''')),
      (''snippet'', cut600 (snippet_source r))]"

definition url_key :: "pydict \<Rightarrow> pyval" where
  "url_key r = key_of (get r ''url'')"

text \<open>
  Deduplication in the specification's words: the item at position \<open>i\<close> survives exactly
  when no earlier position holds the same url, and survivors keep their order.
\<close>

definition first_occurrences :: "pydict list \<Rightarrow> pydict list" where
  "first_occurrences xs =
     map (\<lambda>i. xs ! i)
       (filter (\<lambda>i. \<forall>j \<in> set [0..<i]. url_key (xs ! j) \<noteq> url_key (xs ! i)) [0..<length xs])"

definition sliceable :: "pyval \<Rightarrow> bool" where
  "sliceable v = (case v of PStr _ \<Rightarrow> True | PList _ \<Rightarrow> True | _ \<Rightarrow> False)"

definition is_str :: "pyval \<Rightarrow> bool" where
  "is_str v = (case v of PStr _ \<Rightarrow> True | _ \<Rightarrow> False)"

definition str_len :: "pyval \<Rightarrow> nat" where
  "str_len v = (case v of PStr s \<Rightarrow> length s | _ \<Rightarrow> 0)"

text \<open>A hit without a usable url: the key is absent, or its value is None or empty.\<close>

definition url_less :: "pydict \<Rightarrow> bool" where
  "url_less r = (\<not> truthy (get r ''url''))"

definition items_of :: "pydict list option \<Rightarrow> pydict list" where
  "items_of items = (case items of None \<Rightarrow> [] | Some xs \<Rightarrow> xs)"

text \<open>
  The second loop as a function of the urls already seen; the loop's result is
  related to it, and it to \<open>first_occurrences\<close>, in the lemmas below.
\<close>

fun keep_unseen :: "pyval set \<Rightarrow> pydict list \<Rightarrow> pydict list" where
  "keep_unseen seen [] = []"
| "keep_unseen seen (r # rs) =
     (if url_key r \<in> seen then keep_unseen seen rs
      else r # keep_unseen (insert (url_key r) seen) rs)"

section \<open>The structured model caller\<close>

text \<open>
  What the pipeline does not own is collected in one record: the text-generation
  service, the JSON parser and serializer, the search service, the rendering of a
  validation error, and the fixed rubric that opens the classification prompt (lines
  114 to 132 of the source; it holds code points outside \<open>char\<close>, and nothing below
  depends on its wording).

  The model is not deterministic, so its reply depends on how many calls were made
  before (the first argument of \<open>generate_content\<close>) as well as on the model id, the
  prompt and the temperature. A reply is the \<^verbatim>\<open>resp.text\<close> of the response, which may
  be None, or the exception raised by the call or by reading the text.

  \<open>loads\<close> is \<^verbatim>\<open>json.loads\<close> on a \<open>str\<close>: the parsed value, or the way the call
  fails. \<open>NotJSON\<close> is the \<^verbatim>\<open>JSONDecodeError\<close> it raises on a text that is not a JSON
  document; the \<^verbatim>\<open>doc\<close> attribute of that error is the document the parser was
  given. \<open>Raises e\<close> is any other exception of the parser, such as the
  \<^verbatim>\<open>RecursionError\<close> on a deeply nested document or the \<^verbatim>\<open>ValueError\<close> on an
  integer with more digits than the interpreter converts.
\<close>

datatype parse_failure =
    NotJSON
  | Raises py_error

record services =
  generate_content :: "nat \<Rightarrow> string \<Rightarrow> string \<Rightarrow> real \<Rightarrow> py_error + string option"
  loads :: "string \<Rightarrow> parse_failure + pyval"
  dumps :: "pydict list \<Rightarrow> string"
  tavily_search :: "string \<Rightarrow> nat \<Rightarrow> py_error + (string \<times> pydict list option) list"
  str_of_errors :: "field_error list \<Rightarrow> string"
  classify_rubric :: string

definition json_loads :: "services \<Rightarrow> string \<Rightarrow> py_error + pyval" where
  "json_loads w text =
     (case loads w text of
        Inl NotJSON \<Rightarrow> Inl (JSONDecodeError text)
      | Inl (Raises e) \<Rightarrow> Inl e
      | Inr v \<Rightarrow> Inr v)"

text \<open>\<^verbatim>\<open>str.isspace\<close> on the code points below 256.\<close>

definition isspace :: "char \<Rightarrow> bool" where
  "isspace c = (of_char c \<in> {9, 10, 11, 12, 13, 28, 29, 30, 31, 32, 133, 160 :: nat})"

definition strip :: "string \<Rightarrow> string" where
  "strip s = rev (dropWhile isspace (rev (dropWhile isspace s)))"

fun drop_prefix :: "string \<Rightarrow> string \<Rightarrow> string option" where
  "drop_prefix [] s = Some s"
| "drop_prefix (p # ps) [] = None"
| "drop_prefix (p # ps) (c # cs) = (if p = c then drop_prefix ps cs else None)"

text \<open>
  The first alternative of the pattern \<^verbatim>\<open>^```(?:json)?\s*|\s*```$\<close>: at the start of
  the text, three backquotes, then \<^verbatim>\<open>json\<close> if it is there, then all the whitespace
  that follows. The result is the text after the match.
\<close>

definition open_fence :: "string \<Rightarrow> string option" where
  "open_fence text =
     (case drop_prefix ''```'' text of
        None \<Rightarrow> None
      | Some r \<Rightarrow>
          Some (dropWhile isspace (case drop_prefix ''json'' r of None \<Rightarrow> r | Some r' \<Rightarrow> r')))"

text \<open>
  The second alternative: whitespace, three backquotes and the end of the text, where
  \<^verbatim>\<open>$\<close> also matches just before a newline that ends the text. The leftmost match
  takes the whole run of whitespace in front of the backquotes. The result is the
  text with the match removed.
\<close>

definition close_fence :: "string \<Rightarrow> string" where
  "close_fence r =
     (case drop_prefix ''```'' (rev r) of
        Some q \<Rightarrow> rev (dropWhile isspace q)
      | None \<Rightarrow>
          (case rev r of
             [] \<Rightarrow> r
           | c # q1 \<Rightarrow>
               if c = CHR 0x0A
               then (case drop_prefix ''```'' q1 of
                       Some q \<Rightarrow> rev (dropWhile isspace q) @ [CHR 0x0A]
                     | None \<Rightarrow> r)
               else r))"

text \<open>\<^verbatim>\<open>re.sub(pattern, "", text)\<close>: every match, left to right, is removed.\<close>

definition fence_sub :: "string \<Rightarrow> string" where
  "fence_sub text = close_fence (case open_fence text of None \<Rightarrow> text | Some r \<Rightarrow> r)"

text \<open>The text handed to the parser: \<^verbatim>\<open>(resp.text or "").strip()\<close>, fences removed.\<close>

definition cleaned :: "string option \<Rightarrow> string" where
  "cleaned resp_text = fence_sub (strip (case resp_text of None \<Rightarrow> [] | Some t \<Rightarrow> t))"

definition ONLY_JSON :: string where
  "ONLY_JSON = [CHR 0x0A, CHR 0x0A] @ ''Return ONLY valid JSON, no prose.''"

text \<open>
  The loop \<^verbatim>\<open>for attempt in range(retries + 1)\<close> of \<^verbatim>\<open>gemini_json\<close>: the fourth
  argument from the end counts the iterations that are left, \<open>message\<close> is the prompt
  of this attempt and \<open>n\<close> the number of calls made to the service so far, returned
  with the result. An exception of the service is outside the \<^verbatim>\<open>try\<close> and leaves
  at once; whatever the parser raises is caught by \<^verbatim>\<open>except Exception\<close>, raised
  again unchanged on the last attempt and retried with the reminder otherwise. A loop
  that ends without returning gives None.
\<close>

fun attempt_loop ::
  "services \<Rightarrow> string \<Rightarrow> string \<Rightarrow> real \<Rightarrow> int \<Rightarrow> nat \<Rightarrow> int \<Rightarrow> string \<Rightarrow> nat
     \<Rightarrow> (py_error + pyval) \<times> nat" where
  "attempt_loop w model prompt temperature retries 0 attempt message n = (Inr PNone, n)"
| "attempt_loop w model prompt temperature retries (Suc k) attempt message n =
     (case generate_content w n model message temperature of
        Inl e \<Rightarrow> (Inl e, Suc n)
      | Inr resp_text \<Rightarrow>
          (case json_loads w (cleaned resp_text) of
             Inr v \<Rightarrow> (Inr v, Suc n)
           | Inl e \<Rightarrow>
               if attempt = retries then (Inl e, Suc n)
               else attempt_loop w model prompt temperature retries k (attempt + 1)
                      (prompt @ ONLY_JSON) (Suc n)))"

definition gemini_json ::
  "services \<Rightarrow> string \<Rightarrow> string \<Rightarrow> real \<Rightarrow> int \<Rightarrow> nat \<Rightarrow> (py_error + pyval) \<times> nat" where
  "gemini_json w model prompt temperature retries n =
     attempt_loop w model prompt temperature retries (nat (retries + 1)) 0 prompt n"

text \<open>The prompt of attempt \<open>i\<close>: the reminder is appended from the first retry on.\<close>

definition message_of :: "string \<Rightarrow> nat \<Rightarrow> string" where
  "message_of prompt i = (if i = 0 then prompt else prompt @ ONLY_JSON)"

section \<open>The two contracts\<close>

text \<open>
  \<^verbatim>\<open>ClaimJudge\<close> and \<^verbatim>\<open>VerdictOut\<close> are pydantic models; the field rules below are
  those of pydantic 2 in its default (lax) mode on values that come from JSON. Keys the
  model does not declare are ignored, every failing field is reported, and
  \<^verbatim>\<open>Model(**raw)\<close> raises TypeError when \<open>raw\<close> is not a mapping.
\<close>

definition lower_char :: "char \<Rightarrow> char" where
  "lower_char c =
     (if 65 \<le> (of_char c :: nat) \<and> (of_char c :: nat) \<le> 90
      then (case c of Char b0 b1 b2 b3 b4 b5 b6 b7 \<Rightarrow> Char b0 b1 b2 b3 b4 True b6 b7)
      else c)"

text \<open>A \<open>bool\<close> field: booleans, the integers 0 and 1, and the usual spellings.\<close>

definition as_bool :: "pyval \<Rightarrow> bool option" where
  "as_bool v =
     (case v of
        PBool b \<Rightarrow> Some b
      | PInt i \<Rightarrow> (if i = 0 then Some False else if i = 1 then Some True else None)
      | PStr s \<Rightarrow>
          (if s = ''0'' \<or> map lower_char s \<in> set [''f'', ''n'', ''no'', ''off'', ''false'']
           then Some False
           else if s = ''1'' \<or> map lower_char s \<in> set [''t'', ''y'', ''on'', ''yes'', ''true'']
           then Some True
           else None)
      | _ \<Rightarrow> None)"

text \<open>A \<open>str\<close> field: strings only.\<close>

definition as_str :: "pyval \<Rightarrow> string option" where
  "as_str v = (case v of PStr s \<Rightarrow> Some s | _ \<Rightarrow> None)"

record claim_judge =
  judge_is_claim :: bool
  judge_reason :: "string option"

definition errors_of :: "field_error + 'a \<Rightarrow> field_error list" where
  "errors_of r = (case r of Inl e \<Rightarrow> [e] | Inr _ \<Rightarrow> [])"

text \<open>
  \<^verbatim>\<open>is_claim: bool = Field(...)\<close> is required; \<^verbatim>\<open>reason: str = Field(None)\<close> is None
  when absent.
\<close>

definition ClaimJudge :: "pyval \<Rightarrow> py_error + claim_judge" where
  "ClaimJudge raw =
     (case raw of
        PDict kw \<Rightarrow>
          (let f1 = (case map_of kw ''is_claim'' of
                       None \<Rightarrow> Inl (Missing ''is_claim'')
                     | Some v \<Rightarrow> (case as_bool v of
                                    None \<Rightarrow> Inl (Invalid ''is_claim'')
                                  | Some b \<Rightarrow> Inr b));
               f2 = (case map_of kw ''reason'' of
                       None \<Rightarrow> Inr None
                     | Some v \<Rightarrow> (case as_str v of
                                    None \<Rightarrow> Inl (Invalid ''reason'')
                                  | Some s \<Rightarrow> Inr (Some s)))
           in case (f1, f2) of
                (Inr b, Inr r) \<Rightarrow> Inr \<lparr>judge_is_claim = b, judge_reason = r\<rparr>
              | _ \<Rightarrow> Inl (ValidationError (errors_of f1 @ errors_of f2)))
      | _ \<Rightarrow> Inl TypeError)"

record verdict_out =
  out_verdict :: string
  out_explanation :: string
  out_citations :: "pydict list"

text \<open>One citation of \<^verbatim>\<open>List[Dict[str, str]]\<close>: a dict whose values are all strings.\<close>

definition as_str_dict :: "pyval \<Rightarrow> pydict option" where
  "as_str_dict c =
     (case c of
        PDict kvs \<Rightarrow> (if list_all (\<lambda>(k, v). as_str v \<noteq> None) kvs then Some kvs else None)
      | _ \<Rightarrow> None)"

definition as_citations :: "pyval \<Rightarrow> pydict list option" where
  "as_citations v =
     (case v of
        PList cs \<Rightarrow> those (map as_str_dict cs)
      | _ \<Rightarrow> None)"

text \<open>
  \<^verbatim>\<open>verdict: Literal["true", "false", "unsubstantiated"]\<close>,
  \<^verbatim>\<open>explanation: str = Field(..., max_length=600)\<close> and
  \<^verbatim>\<open>citations: List[Dict[str, str]] = Field(default_factory=list)\<close>.
\<close>

definition VerdictOut :: "pyval \<Rightarrow> py_error + verdict_out" where
  "VerdictOut raw =
     (case raw of
        PDict kw \<Rightarrow>
          (let f1 = (case map_of kw ''verdict'' of
                       None \<Rightarrow> Inl (Missing ''verdict'')
                     | Some v \<Rightarrow>
                         (case v of
                            PStr s \<Rightarrow>
                              (if s \<in> set [''true'', ''false'', ''unsubstantiated'']
                               then Inr s else Inl (Invalid ''verdict''))
                          | _ \<Rightarrow> Inl (Invalid ''verdict'')));
               f2 = (case map_of kw ''explanation'' of
                       None \<Rightarrow> Inl (Missing ''explanation'')
                     | Some v \<Rightarrow> (case as_str v of
                                    None \<Rightarrow> Inl (Invalid ''explanation'')
                                  | Some s \<Rightarrow> (if length s \<le> 600 then Inr s
                                               else Inl (Invalid ''explanation''))));
               f3 = (case map_of kw ''citations'' of
                       None \<Rightarrow> Inr []
                     | Some v \<Rightarrow> (case as_citations v of
                                    None \<Rightarrow> Inl (Invalid ''citations'')
                                  | Some cs \<Rightarrow> Inr cs))
           in case (f1, f2, f3) of
                (Inr v, Inr e, Inr cs) \<Rightarrow>
                  Inr \<lparr>out_verdict = v, out_explanation = e, out_citations = cs\<rparr>
              | _ \<Rightarrow> Inl (ValidationError (errors_of f1 @ errors_of f2 @ errors_of f3)))
      | _ \<Rightarrow> Inl TypeError)"

section \<open>The pipeline\<close>

text \<open>
  \<^verbatim>\<open>AgentState\<close> is a \<^verbatim>\<open>TypedDict\<close> with \<^verbatim>\<open>total=False\<close>: apart from the input
  text, with which every run is seeded, a key may be absent (\<open>None\<close> here). The reason
  and the explanation may be stored as Python's None, hence the second \<open>option\<close>.
\<close>

record AgentState =
  input_text :: string
  is_claim :: "bool option"
  claim_reason :: "string option option"
  research :: "pydict list option"
  verdict :: "string option"
  explanation :: "string option option"
  citations :: "pydict list option"

definition GEMINI_CLASSIFY_MODEL :: string where
  "GEMINI_CLASSIFY_MODEL = ''gemini-2.5-flash''"

definition GEMINI_ASSESS_MODEL :: string where
  "GEMINI_ASSESS_MODEL = ''gemini-2.5-pro''"

definition classify_prompt :: "services \<Rightarrow> string \<Rightarrow> string" where
  "classify_prompt w text = classify_rubric w @ ''Text:'' @ [CHR 0x0A] @ ''```'' @ text @ ''```''"

text \<open>
  A node takes the state and the number of model calls made so far, and returns both
  or the exception it raised. Both stages turn a \<^verbatim>\<open>ValidationError\<close> into a
  \<^verbatim>\<open>RuntimeError\<close> whose message ends with the rendering of the error.
\<close>

definition classify_claim :: "services \<Rightarrow> AgentState \<times> nat \<Rightarrow> py_error + AgentState \<times> nat" where
  "classify_claim w sn =
     (case sn of (state, n) \<Rightarrow>
        (case gemini_json w GEMINI_CLASSIFY_MODEL (classify_prompt w (input_text state)) (1 / 10) 2 n of
           (Inl e, n') \<Rightarrow> Inl e
         | (Inr raw, n') \<Rightarrow>
             (case ClaimJudge raw of
                Inl (ValidationError es) \<Rightarrow>
                  Inl (RuntimeError (''classify_claim JSON failed validation: '' @ str_of_errors w es))
              | Inl e \<Rightarrow> Inl e
              | Inr judged \<Rightarrow>
                  (let state1 = state\<lparr>is_claim := Some (judge_is_claim judged),
                                      claim_reason := Some (judge_reason judged)\<rparr>
                   in if \<not> judge_is_claim judged
                      then Inr (state1\<lparr>verdict := Some ''not_a_claim'',
                                      explanation := Some (judge_reason judged)\<rparr>, n')
                      else Inr (state1, n')))))"

text \<open>\<^verbatim>\<open>res.get("results", [])\<close>: the empty list only when the key is absent.\<close>

definition research_with_tavily ::
  "services \<Rightarrow> AgentState \<times> nat \<Rightarrow> py_error + AgentState \<times> nat" where
  "research_with_tavily w sn =
     (case sn of (state, n) \<Rightarrow>
        (case tavily_search w (input_text state) 6 of
           Inl e \<Rightarrow> Inl e
         | Inr res \<Rightarrow>
             (case normalize_research
                     (case map_of res ''results'' of None \<Rightarrow> Some [] | Some v \<Rightarrow> v) of
                Inl e \<Rightarrow> Inl e
              | Inr normalized \<Rightarrow> Inr (state\<lparr>research := Some normalized\<rparr>, n))))"

definition research_or_empty :: "AgentState \<Rightarrow> pydict list" where
  "research_or_empty state = (case research state of None \<Rightarrow> [] | Some rs \<Rightarrow> rs)"

definition assess_prompt :: "services \<Rightarrow> AgentState \<Rightarrow> string" where
  "assess_prompt w state =
     ''You are a concise fact-checker. Using ONLY the provided research, decide if the claim is '' @
     [CHR 0x27] @ ''true'' @ [CHR 0x27] @ '', '' @ [CHR 0x27] @ ''false'' @ [CHR 0x27] @
     '', or '' @ [CHR 0x27] @ ''unsubstantiated'' @ [CHR 0x27] @ ''.'' @ [CHR 0x0A] @
     ''Return JSON: {verdict, explanation (<=600 chars), citations (array of {title,url} from the research only)}.'' @
     [CHR 0x0A, CHR 0x0A] @
     ''Claim:'' @ [CHR 0x0A] @ ''```'' @ input_text state @ ''```'' @ [CHR 0x0A, CHR 0x0A] @
     ''Research JSON:'' @ [CHR 0x0A] @ dumps w (research_or_empty state)"

text \<open>The citation built from one research item when the model gave none.\<close>

definition title_url :: "pydict \<Rightarrow> pydict" where
  "title_url r =
     [(''title'', get_default r ''title'' (PStr '''')), (''url'', get_default r ''url'' (PStr ''''))]"

definition assess_claim :: "services \<Rightarrow> AgentState \<times> nat \<Rightarrow> py_error + AgentState \<times> nat" where
  "assess_claim w sn =
     (case sn of (state, n) \<Rightarrow>
        (case gemini_json w GEMINI_ASSESS_MODEL (assess_prompt w state) (2 / 10) 2 n of
           (Inl e, n') \<Rightarrow> Inl e
         | (Inr raw, n') \<Rightarrow>
             (case VerdictOut raw of
                Inl (ValidationError es) \<Rightarrow>
                  Inl (RuntimeError (''assess_claim JSON failed validation: '' @ str_of_errors w es))
              | Inl e \<Rightarrow> Inl e
              | Inr v \<Rightarrow>
                  Inr (state\<lparr>verdict := Some (out_verdict v),
                             explanation := Some (Some (out_explanation v)),
                             citations := Some (if out_citations v \<noteq> [] then out_citations v
                                                else map title_url (research_or_empty state))\<rparr>,
                       n'))))"

definition finalize :: "services \<Rightarrow> AgentState \<times> nat \<Rightarrow> py_error + AgentState \<times> nat" where
  "finalize w sn = Inr sn"

text \<open>
  The graph: four nodes, the edge from the start to the classifier, the conditional
  edge out of it, and the linear tail to the end.
\<close>

datatype node = N_classify_claim | N_research_with_tavily | N_assess_claim | N_finalize | N_END

definition route_from_classify :: "AgentState \<Rightarrow> node" where
  "route_from_classify state =
     (if is_claim state = Some True then N_research_with_tavily else N_finalize)"

fun run_node :: "services \<Rightarrow> node \<Rightarrow> AgentState \<times> nat \<Rightarrow> py_error + AgentState \<times> nat" where
  "run_node w N_classify_claim sn = classify_claim w sn"
| "run_node w N_research_with_tavily sn = research_with_tavily w sn"
| "run_node w N_assess_claim sn = assess_claim w sn"
| "run_node w N_finalize sn = finalize w sn"
| "run_node w N_END sn = Inr sn"

fun next_node :: "node \<Rightarrow> AgentState \<Rightarrow> node" where
  "next_node N_classify_claim state = route_from_classify state"
| "next_node N_research_with_tavily state = N_assess_claim"
| "next_node N_assess_claim state = N_finalize"
| "next_node N_finalize state = N_END"
| "next_node N_END state = N_END"

text \<open>
  The graph is compiled with a \<^verbatim>\<open>MemorySaver\<close> checkpointer, which lives as long as
  the process and keeps, for every \<^verbatim>\<open>thread_id\<close>, the state last saved for that thread
  (\<open>None\<close> for a thread that has not run). An invocation starts from the state saved
  for its thread with the keys of the input written over it, and from the input alone
  on a fresh thread.
\<close>

type_synonym checkpoints = "string \<Rightarrow> AgentState option"

definition or_saved :: "'a option \<Rightarrow> 'a option \<Rightarrow> 'a option" where
  "or_saved new old = (case new of None \<Rightarrow> old | Some v \<Rightarrow> Some v)"

definition apply_input :: "AgentState option \<Rightarrow> AgentState \<Rightarrow> AgentState" where
  "apply_input saved input =
     (case saved of
        None \<Rightarrow> input
      | Some st \<Rightarrow>
          \<lparr>input_text = input_text input,
           is_claim = or_saved (is_claim input) (is_claim st),
           claim_reason = or_saved (claim_reason input) (claim_reason st),
           research = or_saved (research input) (research st),
           verdict = or_saved (verdict input) (verdict st),
           explanation = or_saved (explanation input) (explanation st),
           citations = or_saved (citations input) (citations st)\<rparr>)"

text \<open>
  The compiled graph runs one node per step until it reaches the end, saves the state
  under the thread after every step, and gives up with \<^verbatim>\<open>GraphRecursionError\<close> after
  the library's limit of 25 steps. A node that raises ends the run, and the thread
  keeps the state saved before that node. The result is the final state with the
  number of model calls made, or the exception, together with the checkpoints.
\<close>

fun run_from ::
  "nat \<Rightarrow> services \<Rightarrow> string \<Rightarrow> node \<Rightarrow> AgentState \<times> nat \<Rightarrow> checkpoints
     \<Rightarrow> (py_error + AgentState \<times> nat) \<times> checkpoints" where
  "run_from fuel w thread_id N_END sn memory = (Inr sn, memory)"
| "run_from 0 w thread_id nd sn memory = (Inl GraphRecursionError, memory)"
| "run_from (Suc fuel) w thread_id nd sn memory =
     (case run_node w nd sn of
        Inl e \<Rightarrow> (Inl e, memory)
      | Inr sn' \<Rightarrow>
          run_from fuel w thread_id (next_node nd (fst sn')) sn' (memory(thread_id \<mapsto> fst sn')))"

text \<open>
  \<^verbatim>\<open>GRAPH.invoke(init_state, config)\<close>: \<open>memory\<close> is the content of the checkpointer and
  \<open>n\<close> the number of model calls made before the invocation.
\<close>

definition GRAPH_invoke ::
  "services \<Rightarrow> checkpoints \<Rightarrow> nat \<Rightarrow> AgentState \<Rightarrow> string
     \<Rightarrow> (py_error + AgentState \<times> nat) \<times> checkpoints" where
  "GRAPH_invoke w memory n init_state thread_id =
     (let state = apply_input (memory thread_id) init_state
      in run_from 25 w thread_id N_classify_claim (state, n) (memory(thread_id \<mapsto> state)))"

datatype response =
    NotAClaim "string option"
  | FactChecked "string option" "string option" "pydict list option"

text \<open>\<^verbatim>\<open>state.get(k)\<close> on a key that holds an optional string.\<close>

definition get_opt :: "'a option option \<Rightarrow> 'a option" where
  "get_opt x = (case x of None \<Rightarrow> None | Some v \<Rightarrow> v)"

definition init_state_of :: "string \<Rightarrow> AgentState" where
  "init_state_of text =
     \<lparr>input_text = text, is_claim = None, claim_reason = None, research = None,
      verdict = None, explanation = None, citations = None\<rparr>"

text \<open>
  \<^verbatim>\<open>run_agent(text, thread_id)\<close>: \<open>NotAClaim reason\<close> is the payload with status
  \<^verbatim>\<open>not_a_claim\<close>, \<open>FactChecked verdict explanation citations\<close> the one with status
  \<^verbatim>\<open>fact_checked\<close>. The checkpoints are returned with the response or the exception.
\<close>

definition run_agent ::
  "services \<Rightarrow> checkpoints \<Rightarrow> nat \<Rightarrow> string \<Rightarrow> string \<Rightarrow> (py_error + response) \<times> checkpoints" where
  "run_agent w memory n text thread_id =
     (case GRAPH_invoke w memory n (init_state_of text) thread_id of
        (Inl e, memory') \<Rightarrow> (Inl e, memory')
      | (Inr (final_state, n'), memory') \<Rightarrow>
          (if verdict final_state = Some ''not_a_claim''
           then Inr (NotAClaim (get_opt (explanation final_state)))
           else Inr (FactChecked (verdict final_state) (get_opt (explanation final_state))
                       (citations final_state)),
           memory'))"

text \<open>The state an invocation of \<^verbatim>\<open>run_agent\<close> starts from.\<close>

definition start_state :: "checkpoints \<Rightarrow> string \<Rightarrow> string \<Rightarrow> AgentState" where
  "start_state memory text thread_id = apply_input (memory thread_id) (init_state_of text)"

section \<open>Example services\<close>

text \<open>
  Concrete services for the worked examples: a service that always answers with the
  same fenced text and a parser that accepts nothing, and a service that plays back a
  list of replies, with a parser that knows five reply texts and a search that finds
  two hits.
\<close>

definition fenced_reply :: string where
  "fenced_reply = ''```json'' @ [CHR 0x0A] @ ''nope'' @ [CHR 0x0A] @ ''```''"

definition deaf_services :: services where
  "deaf_services =
     \<lparr>generate_content = (\<lambda>n model prompt temperature. Inr (Some fenced_reply)),
      loads = (\<lambda>text. Inl NotJSON),
      dumps = (\<lambda>rs. ''[]''),
      tavily_search = (\<lambda>query max_results. Inr []),
      str_of_errors = (\<lambda>es. ''invalid''),
      classify_rubric = ''Task:''\<rparr>"

definition toy_loads :: "string \<Rightarrow> pyval option" where
  "toy_loads text =
     map_of
       [(''{is_claim: false, reason: filler}'',
           PDict [(''is_claim'', PBool False), (''reason'', PStr ''filler, no assertion'')]),
        (''{is_claim: true}'', PDict [(''is_claim'', PBool True)]),
        (''{reason: filler}'', PDict [(''reason'', PStr ''filler, no assertion'')]),
        (''{verdict: true, explanation: yes, citations: []}'',
           PDict [(''verdict'', PStr ''true''), (''explanation'', PStr ''yes''), (''citations'', PList [])]),
        (''{verdict: maybe, explanation: yes}'',
           PDict [(''verdict'', PStr ''maybe''), (''explanation'', PStr ''yes'')])]
       text"

definition toy_hits :: "pydict list" where
  "toy_hits =
     [[(''title'', PStr ''A''), (''url'', PStr ''http://a''), (''content'', PStr ''blue'')],
      [(''title'', PStr ''B''), (''url'', PStr ''http://b''), (''content'', PStr ''sky'')]]"

definition scripted :: "string list \<Rightarrow> services" where
  "scripted replies =
     \<lparr>generate_content =
        (\<lambda>n model prompt temperature.
           Inr (if n < length replies then Some (replies ! n) else None)),
      loads = (\<lambda>text. case toy_loads text of None \<Rightarrow> Inl NotJSON | Some v \<Rightarrow> Inr v),
      dumps = (\<lambda>rs. ''[]''),
      tavily_search = (\<lambda>query max_results. Inr [(''results'', Some toy_hits)]),
      str_of_errors = (\<lambda>es. ''invalid fields''),
      classify_rubric = ''Task:''\<rparr>"

text \<open>A service whose parser gives up on every text with \<^verbatim>\<open>RecursionError\<close>.\<close>

definition stack_services :: services where
  "stack_services = deaf_services\<lparr>loads := (\<lambda>text. Inl (Raises RecursionError))\<rparr>"

text \<open>
  Two invocations on one thread: the replies of a fact-checked claim, then the reply
  to a text that is not a claim, and the checkpoints the first invocation leaves.
\<close>

definition two_runs :: services where
  "two_runs =
     scripted [''{is_claim: true}'', ''{verdict: true, explanation: yes, citations: []}'',
               ''{is_claim: false, reason: filler}'']"

definition session_memory :: checkpoints where
  "session_memory = snd (run_agent two_runs Map.empty 0 ''The sky is blue.'' ''session'')"

section \<open>Properties of the evidence normalizer\<close>

lemma map_loop_char:
  "map_loop rs out =
     (if \<forall>r \<in> set rs. sliceable (snippet_source r)
      then Inr (out @ map evidence_item rs) else Inl TypeError)"
proof (induction rs arbitrary: out)
  case Nil
  show ?case by simp
next
  case (Cons r rs)
  show ?case
  proof (cases "snippet_source r")
    case (PStr s)
    then show ?thesis
      using Cons.IH by (simp add: snippet_source_def sliceable_def evidence_item_def)
  next
    case (PList xs)
    then show ?thesis
      using Cons.IH by (simp add: snippet_source_def sliceable_def evidence_item_def)
  qed (simp_all add: snippet_source_def sliceable_def)
qed

lemma url_evidence_item: "map_of (evidence_item r) ''url'' = Some (py_or (get r ''url'') (PStr ''''))"
  by (simp add: evidence_item_def)

lemma dedup_loop_ok:
  "\<forall>r \<in> set rs. \<exists>u. map_of r ''url'' = Some u \<and> hashable u \<Longrightarrow>
   dedup_loop rs seen acc = Inr (acc @ keep_unseen seen rs)"
proof (induction rs arbitrary: seen acc)
  case Nil
  show ?case by simp
next
  case (Cons r rs)
  then obtain u where u: "map_of r ''url'' = Some u" "hashable u" by auto
  have k: "url_key r = key_of u" using u by (simp add: url_key_def get_def)
  show ?case using Cons u k by simp
qed

lemma dedup_loop_fail:
  "\<exists>r \<in> set rs. \<exists>u. map_of r ''url'' = Some u \<and> \<not> hashable u \<Longrightarrow>
   \<forall>r \<in> set rs. map_of r ''url'' \<noteq> None \<Longrightarrow>
   dedup_loop rs seen acc = Inl TypeError"
proof (induction rs arbitrary: seen acc)
  case Nil
  then show ?case by simp
next
  case (Cons r rs)
  then show ?case by (auto split: option.splits)
qed

lemma keep_unseen_index:
  "keep_unseen seen xs =
     map (\<lambda>i. xs ! i)
       (filter (\<lambda>i. url_key (xs ! i) \<notin> seen \<and> (\<forall>j<i. url_key (xs ! j) \<noteq> url_key (xs ! i)))
          [0..<length xs])"
proof (induction xs arbitrary: seen)
  case Nil
  show ?case by simp
next
  case (Cons x xs)
  let ?Q = "\<lambda>i. url_key ((x # xs) ! i) \<notin> seen \<and>
                (\<forall>j<i. url_key ((x # xs) ! j) \<noteq> url_key ((x # xs) ! i))"
  have up: "[0..<length (x # xs)] = 0 # map Suc [0..<length xs]"
    by (simp add: upt_conv_Cons map_Suc_upt del: upt_Suc)
  have Q_Suc: "?Q (Suc i) \<longleftrightarrow>
      url_key (xs ! i) \<notin> seen \<and> url_key x \<noteq> url_key (xs ! i) \<and>
      (\<forall>j<i. url_key (xs ! j) \<noteq> url_key (xs ! i))" for i
    by (auto simp: less_Suc_eq_0_disj)
  have split: "map (\<lambda>i. (x # xs) ! i) (filter ?Q [0..<length (x # xs)]) =
      (if ?Q 0 then [x] else []) @ map (\<lambda>i. xs ! i) (filter (\<lambda>i. ?Q (Suc i)) [0..<length xs])"
    unfolding up by (simp add: filter_map comp_def)
  show ?case
  proof (cases "url_key x \<in> seen")
    case True
    have "filter (\<lambda>i. ?Q (Suc i)) [0..<length xs] =
          filter (\<lambda>i. url_key (xs ! i) \<notin> seen \<and> (\<forall>j<i. url_key (xs ! j) \<noteq> url_key (xs ! i)))
            [0..<length xs]"
      using True by (intro filter_cong refl, simp only: Q_Suc) auto
    then show ?thesis
      using True by (simp only: split) (simp add: Cons.IH)
  next
    case False
    have "filter (\<lambda>i. ?Q (Suc i)) [0..<length xs] =
          filter (\<lambda>i. url_key (xs ! i) \<notin> insert (url_key x) seen \<and>
                       (\<forall>j<i. url_key (xs ! j) \<noteq> url_key (xs ! i)))
            [0..<length xs]"
      by (intro filter_cong refl, simp only: Q_Suc) auto
    then show ?thesis
      using False by (simp only: split) (simp add: Cons.IH)
  qed
qed

lemma keep_unseen_first_occurrences: "keep_unseen {} xs = first_occurrences xs"
  by (simp add: keep_unseen_index first_occurrences_def Ball_def)

lemma normalize_research_char:
  "normalize_research items =
     (if (\<forall>r \<in> set (items_of items). sliceable (snippet_source r)) \<and>
         (\<forall>r \<in> set (items_of items). hashable (py_or (get r ''url'') (PStr '''')))
      then Inr (first_occurrences (map evidence_item (items_of items)))
      else Inl TypeError)"
proof (cases "\<forall>r \<in> set (items_of items). sliceable (snippet_source r)")
  case False
  then show ?thesis
    by (auto simp: normalize_research_def items_of_def [symmetric] map_loop_char)
next
  case sl: True
  let ?ys = "map evidence_item (items_of items)"
  have m: "map_loop (items_of items) [] = Inr ?ys"
    using sl by (simp add: map_loop_char)
  have present: "\<forall>r \<in> set ?ys. map_of r ''url'' \<noteq> None"
    by (auto simp: url_evidence_item)
  show ?thesis
  proof (cases "\<forall>r \<in> set (items_of items). hashable (py_or (get r ''url'') (PStr ''''))")
    case True
    then have "\<forall>r \<in> set ?ys. \<exists>u. map_of r ''url'' = Some u \<and> hashable u"
      by (auto simp: url_evidence_item)
    then have "dedup_loop ?ys {} [] = Inr ([] @ keep_unseen {} ?ys)"
      by (rule dedup_loop_ok)
    then show ?thesis
      using sl True m
      by (simp add: normalize_research_def items_of_def [symmetric] keep_unseen_first_occurrences)
  next
    case False
    then have "\<exists>r \<in> set ?ys. \<exists>u. map_of r ''url'' = Some u \<and> \<not> hashable u"
      by (auto simp: url_evidence_item)
    then have "dedup_loop ?ys {} [] = Inl TypeError"
      using present by (rule dedup_loop_fail)
    then show ?thesis
      using sl False m
      by (simp add: normalize_research_def items_of_def [symmetric])
  qed
qed

lemma keep_unseen_subset: "set (keep_unseen seen xs) \<subseteq> set xs"
  by (induction xs arbitrary: seen) auto

lemma keep_unseen_avoids: "url_key ` set (keep_unseen seen xs) \<inter> seen = {}"
proof (induction xs arbitrary: seen)
  case Nil
  show ?case by simp
next
  case (Cons x xs)
  show ?case
    using Cons.IH [of seen] Cons.IH [of "insert (url_key x) seen"] by auto
qed

lemma keep_unseen_distinct: "distinct (map url_key (keep_unseen seen xs))"
proof (induction xs arbitrary: seen)
  case Nil
  show ?case by simp
next
  case (Cons x xs)
  show ?case
    using Cons.IH keep_unseen_avoids [of "insert (url_key x) seen" xs] by auto
qed

lemma keep_unseen_fixed:
  "distinct (map url_key zs) \<Longrightarrow> url_key ` set zs \<inter> seen = {} \<Longrightarrow> keep_unseen seen zs = zs"
proof (induction zs arbitrary: seen)
  case Nil
  show ?case by simp
next
  case (Cons z zs)
  have "url_key ` set zs \<inter> insert (url_key z) seen = {}"
    using Cons.prems by auto
  then show ?case
    using Cons by auto
qed

lemma keep_unseen_idem: "keep_unseen {} (keep_unseen {} xs) = keep_unseen {} xs"
  by (rule keep_unseen_fixed) (simp_all add: keep_unseen_distinct)

lemma py_or_absorb: "py_or (py_or a b) b = py_or a b"
  by (simp add: py_or_def)

lemma snippet_source_cases: "truthy (snippet_source r) \<or> snippet_source r = PStr ''''"
  by (simp add: snippet_source_def py_or_def)

lemma cut600_source:
  assumes "sliceable (snippet_source r)"
  shows "py_or (cut600 (snippet_source r)) (PStr '''') = cut600 (snippet_source r)"
    and "cut600 (cut600 (snippet_source r)) = cut600 (snippet_source r)"
    and "sliceable (cut600 (snippet_source r))"
  using assms snippet_source_cases [of r]
  by (cases "snippet_source r"; auto simp: sliceable_def py_or_def)+

lemma url_of_evidence_item:
  "get (evidence_item r) ''url'' = py_or (get r ''url'') (PStr '''')"
  by (simp add: get_def evidence_item_def)

lemma evidence_item_idem:
  assumes "sliceable (snippet_source r)"
  shows "evidence_item (evidence_item r) = evidence_item r"
    and "sliceable (snippet_source (evidence_item r))"
proof -
  have g: "get (evidence_item r) ''content'' = PNone"
          "get (evidence_item r) ''snippet'' = cut600 (snippet_source r)"
    by (simp_all add: get_def evidence_item_def)
  have "snippet_source (evidence_item r) = py_or PNone (py_or (cut600 (snippet_source r)) (PStr []))"
    unfolding snippet_source_def [of "evidence_item r"] g ..
  then have src: "snippet_source (evidence_item r) = cut600 (snippet_source r)"
    using cut600_source(1) [OF assms] by (simp add: py_or_def)
  show "sliceable (snippet_source (evidence_item r))"
    using cut600_source(3) [OF assms] by (simp add: src)
  have "get (evidence_item r) ''title'' = py_or (get r ''title'') (PStr ''(no title)'')"
    by (simp add: get_def evidence_item_def)
  then show "evidence_item (evidence_item r) = evidence_item r"
    using cut600_source(2) [OF assms]
    by (simp add: evidence_item_def [of "evidence_item r"] src py_or_absorb url_of_evidence_item)
       (simp add: evidence_item_def)
qed

lemma normalize_research_again:
  assumes "normalize_research items = Inr out"
  shows "normalize_research (Some out) = Inr out"
proof -
  let ?xs = "items_of items"
  have ok: "\<forall>r \<in> set ?xs. sliceable (snippet_source r)"
           "\<forall>r \<in> set ?xs. hashable (py_or (get r ''url'') (PStr ''''))"
    and out: "out = keep_unseen {} (map evidence_item ?xs)"
    using assms
    by (auto simp: normalize_research_char keep_unseen_first_occurrences split: if_splits)
  have mem: "\<forall>y \<in> set out. \<exists>r \<in> set ?xs. y = evidence_item r"
    using keep_unseen_subset [of "{}" "map evidence_item ?xs"] by (auto simp: out)
  have same: "map evidence_item out = out"
  proof (rule map_idI)
    fix y assume "y \<in> set out"
    then obtain r where "r \<in> set ?xs" "y = evidence_item r" using mem by blast
    then show "evidence_item y = y" using ok(1) evidence_item_idem(1) by simp
  qed
  have sl: "\<forall>y \<in> set (items_of (Some out)). sliceable (snippet_source y)"
    using mem ok(1) evidence_item_idem(2) by (auto simp: items_of_def)
  have ha: "\<forall>y \<in> set (items_of (Some out)). hashable (py_or (get y ''url'') (PStr ''''))"
  proof
    fix y assume "y \<in> set (items_of (Some out))"
    then obtain r where r: "r \<in> set ?xs" "y = evidence_item r"
      using mem by (auto simp: items_of_def)
    have "py_or (get y ''url'') (PStr '''') = py_or (get r ''url'') (PStr '''')"
      by (simp add: r(2) url_of_evidence_item py_or_absorb)
    then show "hashable (py_or (get y ''url'') (PStr ''''))"
      using ok(2) r(1) by simp
  qed
  have "normalize_research (Some out) = Inr (keep_unseen {} (map evidence_item out))"
    using sl ha by (simp add: normalize_research_char keep_unseen_first_occurrences items_of_def)
  also have "keep_unseen {} (map evidence_item out) = out"
    by (simp add: same) (simp add: out keep_unseen_idem)
  finally show ?thesis .
qed

lemma filter_keep_unseen:
  "filter (\<lambda>y. url_key y = k) (keep_unseen seen zs) =
     (if k \<in> seen then [] else take 1 (filter (\<lambda>y. url_key y = k) zs))"
proof (induction zs arbitrary: seen)
  case Nil
  show ?case by simp
next
  case (Cons z zs)
  show ?case by (simp add: Cons.IH)
qed

lemma key_of_empty_str: "key_of v = PStr [] \<longleftrightarrow> v = PStr []"
  by (cases v) auto

lemma url_less_evidence_item: "get (evidence_item r) ''url'' = PStr [] \<longleftrightarrow> url_less r"
  by (auto simp: url_of_evidence_item url_less_def py_or_def)

lemma find_filter: "find P xs = (case filter P xs of [] \<Rightarrow> None | x # _ \<Rightarrow> Some x)"
  by (induction xs) auto

lemma is_str_iff: "is_str v \<longleftrightarrow> (\<exists>s. v = PStr s)"
  by (cases v) (simp_all add: is_str_def)

text \<open>
  Claim C6. The normalizer is idempotent: normalizing the output of the normalizer gives
  that output again. Where the first call raises, the composed call raises the same
  error, so the composition equals the single call on every input.
\<close>

theorem normalize_research_idempotent:
  "(case normalize_research items of
      Inl e \<Rightarrow> Inl e
    | Inr out \<Rightarrow> normalize_research (Some out)) = normalize_research items"
  by (cases "normalize_research items") (simp_all add: normalize_research_again)

theorem normalize_research_idempotent_witness:
  "normalize_research (Some [[(''title'', PStr ''A''), (''url'', PStr ''http://a''), (''content'', PStr ''one'')],
                             [(''url'', PStr ''http://a''), (''snippet'', PStr ''two'')],
                             [(''title'', PStr ''C'')]])
     = Inr [[(''title'', PStr ''A''), (''url'', PStr ''http://a''), (''snippet'', PStr ''one'')],
            [(''title'', PStr ''C''), (''url'', PStr ''''), (''snippet'', PStr '''')]]
   \<and> normalize_research (Some [[(''title'', PStr ''A''), (''url'', PStr ''http://a''), (''snippet'', PStr ''one'')],
            [(''title'', PStr ''C''), (''url'', PStr ''''), (''snippet'', PStr '''')]])
     = Inr [[(''title'', PStr ''A''), (''url'', PStr ''http://a''), (''snippet'', PStr ''one'')],
            [(''title'', PStr ''C''), (''url'', PStr ''''), (''snippet'', PStr '''')]]"
proof -
  let ?xs = "Some [[(''title'', PStr ''A''), (''url'', PStr ''http://a''), (''content'', PStr ''one'')],
                   [(''url'', PStr ''http://a''), (''snippet'', PStr ''two'')],
                   [(''title'', PStr ''C'')]]"
  have h: "normalize_research ?xs
     = Inr [[(''title'', PStr ''A''), (''url'', PStr ''http://a''), (''snippet'', PStr ''one'')],
            [(''title'', PStr ''C''), (''url'', PStr ''''), (''snippet'', PStr '''')]]"
    by (simp add: normalize_research_def get_def py_or_def)
  show ?thesis
    using normalize_research_idempotent [of ?xs] by (simp add: h)
qed

text \<open>
  Claim C7. The normalizer deduplicates by url: whenever it returns, its result is the
  list of evidence items of the hits, in input order, from which every item whose url
  already occurs at an earlier position has been removed. Two urls are the same when
  Python's equality says so, which for strings is equality of the strings. The example
  after it is the case of two hits with one url and different titles: the first survives.
\<close>

theorem normalize_research_first_occurrence:
  assumes "normalize_research items = Inr out"
  shows "out = first_occurrences (map evidence_item (items_of items))"
  using assms by (simp add: normalize_research_char split: if_splits)

theorem normalize_research_first_occurrence_witness:
  "normalize_research (Some [[(''title'', PStr ''A''), (''url'', PStr ''http://a'')],
                             [(''title'', PStr ''B''), (''url'', PStr ''http://a'')]])
     = Inr [[(''title'', PStr ''A''), (''url'', PStr ''http://a''), (''snippet'', PStr '''')]]
   \<and> [[(''title'', PStr ''A''), (''url'', PStr ''http://a''), (''snippet'', PStr '''')]]
     = first_occurrences (map evidence_item
         (items_of (Some [[(''title'', PStr ''A''), (''url'', PStr ''http://a'')],
                          [(''title'', PStr ''B''), (''url'', PStr ''http://a'')]])))"
proof -
  have h: "normalize_research (Some [[(''title'', PStr ''A''), (''url'', PStr ''http://a'')],
                             [(''title'', PStr ''B''), (''url'', PStr ''http://a'')]])
     = Inr [[(''title'', PStr ''A''), (''url'', PStr ''http://a''), (''snippet'', PStr '''')]]"
    by (simp add: normalize_research_def get_def py_or_def)
  show ?thesis
    using h normalize_research_first_occurrence [OF h] by simp
qed

text \<open>
  Claim C8 as stated fails: a hit whose content is the integer 5 makes the slice raise
  TypeError, so the normalizer does not return on every input.
\<close>

theorem normalize_research_raises:
  "normalize_research (Some [[(''title'', PStr ''A''), (''url'', PStr ''http://a''), (''content'', PInt 5)]])
     = Inl TypeError"
  by (simp add: normalize_research_def get_def py_or_def)

text \<open>
  Claim C8, amended. For every input (None included) in which each hit's snippet source
  (content, else snippet, else the empty string) is a string and each hit's url, after
  defaulting, is hashable (None, a boolean, an integer or a string), the normalizer
  returns without error; every output item is the evidence item of an input hit, with
  title defaulting to "(no title)", url to the empty string and the snippet cut to
  its first 600 characters; every input hit's url is represented in the output; and
  every output snippet is a string of length at most 600.
\<close>

theorem normalize_research_defaults:
  assumes "\<forall>r \<in> set (items_of items).
             is_str (snippet_source r) \<and> hashable (py_or (get r ''url'') (PStr ''''))"
  shows "\<exists>out. normalize_research items = Inr out \<and>
           (\<forall>y \<in> set out. \<exists>r \<in> set (items_of items). y = evidence_item r) \<and>
           (\<forall>r \<in> set (items_of items). \<exists>y \<in> set out. url_key y = url_key (evidence_item r)) \<and>
           (\<forall>y \<in> set out. is_str (get y ''snippet'') \<and> str_len (get y ''snippet'') \<le> 600)"
proof -
  let ?xs = "items_of items"
  let ?out = "keep_unseen {} (map evidence_item ?xs)"
  have sl: "\<forall>r \<in> set ?xs. sliceable (snippet_source r)"
    using assms by (auto simp: is_str_iff sliceable_def)
  have res: "normalize_research items = Inr ?out"
    using sl assms by (simp add: normalize_research_char keep_unseen_first_occurrences)
  have mem: "\<forall>y \<in> set ?out. \<exists>r \<in> set ?xs. y = evidence_item r"
    using keep_unseen_subset [of "{}" "map evidence_item ?xs"] by auto
  have cover: "\<forall>r \<in> set ?xs. \<exists>y \<in> set ?out. url_key y = url_key (evidence_item r)"
  proof
    fix r assume "r \<in> set ?xs"
    then have "filter (\<lambda>y. url_key y = url_key (evidence_item r)) (map evidence_item ?xs) \<noteq> []"
      by (auto simp: filter_empty_conv)
    then have "filter (\<lambda>y. url_key y = url_key (evidence_item r)) ?out \<noteq> []"
      by (simp add: filter_keep_unseen)
    then show "\<exists>y \<in> set ?out. url_key y = url_key (evidence_item r)"
      by (auto simp: filter_empty_conv)
  qed
  have bound: "\<forall>y \<in> set ?out. is_str (get y ''snippet'') \<and> str_len (get y ''snippet'') \<le> 600"
  proof
    fix y assume "y \<in> set ?out"
    then obtain r where r: "r \<in> set ?xs" "y = evidence_item r" using mem by blast
    then obtain s where "snippet_source r = PStr s"
      using assms by (auto simp: is_str_iff)
    then have "get y ''snippet'' = PStr (take 600 s)"
      by (simp add: r(2) get_def evidence_item_def)
    then show "is_str (get y ''snippet'') \<and> str_len (get y ''snippet'') \<le> 600"
      by (simp add: is_str_def str_len_def)
  qed
  show ?thesis using res mem cover bound by blast
qed

text \<open>
  Claim C10. Hits without a url (absent, None or empty) all normalize to the empty url
  and are deduplicated against each other: when the input holds two or more of them
  and the normalizer returns, exactly one output item has the empty url, and it is the
  evidence item of the first url-less hit.
\<close>

theorem normalize_research_url_less_once:
  assumes "normalize_research items = Inr out"
    and "2 \<le> length (filter url_less (items_of items))"
  shows "\<exists>r. find url_less (items_of items) = Some r \<and>
             filter (\<lambda>y. get y ''url'' = PStr '''') out = [evidence_item r]"
proof -
  let ?xs = "items_of items"
  have out: "out = keep_unseen {} (map evidence_item ?xs)"
    using assms(1) by (simp add: normalize_research_char keep_unseen_first_occurrences split: if_splits)
  obtain r rs where ne: "filter url_less ?xs = r # rs"
    using assms(2) by (cases "filter url_less ?xs") auto
  have f: "find url_less ?xs = Some r"
    by (simp add: find_filter ne)
  have p: "(\<lambda>y. get y ''url'' = PStr '''') = (\<lambda>y. url_key y = PStr '''')"
    by (simp add: url_key_def key_of_empty_str)
  have "filter (\<lambda>y. get y ''url'' = PStr '''') out
          = take 1 (filter (\<lambda>y. get y ''url'' = PStr '''') (map evidence_item ?xs))"
    unfolding p out by (simp add: filter_keep_unseen)
  also have "filter (\<lambda>y. get y ''url'' = PStr '''') (map evidence_item ?xs)
          = map evidence_item (filter url_less ?xs)"
    by (simp add: filter_map comp_def url_less_evidence_item)
  finally show ?thesis
    using f by (simp add: ne)
qed

theorem normalize_research_defaults_witness:
  "list_all (\<lambda>r. is_str (snippet_source r) \<and> hashable (py_or (get r ''url'') (PStr '''')))
      (items_of (Some [[], [(''title'', PNone), (''url'', PStr ''http://b''),
                            (''content'', PStr (replicate 700 CHR ''x''))]])) \<and>
   normalize_research (Some [[], [(''title'', PNone), (''url'', PStr ''http://b''),
                                  (''content'', PStr (replicate 700 CHR ''x''))]])
     = Inr [[(''title'', PStr ''(no title)''), (''url'', PStr ''''), (''snippet'', PStr '''')],
            [(''title'', PStr ''(no title)''), (''url'', PStr ''http://b''),
             (''snippet'', PStr (replicate 600 CHR ''x''))]] \<and>
   (\<exists>out. normalize_research (Some [[], [(''title'', PNone), (''url'', PStr ''http://b''),
                                         (''content'', PStr (replicate 700 CHR ''x''))]]) = Inr out \<and>
      (\<forall>y \<in> set out. is_str (get y ''snippet'') \<and> str_len (get y ''snippet'') \<le> 600))"
proof -
  let ?xs = "Some [[], [(''title'', PNone), (''url'', PStr ''http://b''),
                        (''content'', PStr (replicate 700 CHR ''x''))]]"
  have h: "\<forall>r \<in> set (items_of ?xs).
             is_str (snippet_source r) \<and> hashable (py_or (get r ''url'') (PStr ''''))"
    by (simp add: items_of_def snippet_source_def get_def py_or_def is_str_def)
  have v: "normalize_research ?xs
     = Inr [[(''title'', PStr ''(no title)''), (''url'', PStr ''''), (''snippet'', PStr '''')],
            [(''title'', PStr ''(no title)''), (''url'', PStr ''http://b''),
             (''snippet'', PStr (replicate 600 CHR ''x''))]]"
    by (simp add: normalize_research_def get_def py_or_def)
  show ?thesis
    using h v normalize_research_defaults [OF h] by (auto simp: list_all_iff)
qed

theorem normalize_research_url_less_once_witness:
  "normalize_research (Some [[(''title'', PStr ''A'')],
                             [(''title'', PStr ''B''), (''url'', PStr '''')],
                             [(''title'', PStr ''C''), (''url'', PStr ''http://c'')],
                             [(''title'', PStr ''D''), (''url'', PNone)]])
     = Inr [[(''title'', PStr ''A''), (''url'', PStr ''''), (''snippet'', PStr '''')],
            [(''title'', PStr ''C''), (''url'', PStr ''http://c''), (''snippet'', PStr '''')]] \<and>
   2 \<le> length (filter url_less (items_of (Some [[(''title'', PStr ''A'')],
                             [(''title'', PStr ''B''), (''url'', PStr '''')],
                             [(''title'', PStr ''C''), (''url'', PStr ''http://c'')],
                             [(''title'', PStr ''D''), (''url'', PNone)]]))) \<and>
   filter (\<lambda>y. get y ''url'' = PStr '''')
      [[(''title'', PStr ''A''), (''url'', PStr ''''), (''snippet'', PStr '''')],
       [(''title'', PStr ''C''), (''url'', PStr ''http://c''), (''snippet'', PStr '''')]]
     = [evidence_item [(''title'', PStr ''A'')]]"
proof -
  let ?xs = "Some [[(''title'', PStr ''A'')],
                   [(''title'', PStr ''B''), (''url'', PStr '''')],
                   [(''title'', PStr ''C''), (''url'', PStr ''http://c'')],
                   [(''title'', PStr ''D''), (''url'', PNone)]]"
  have v: "normalize_research ?xs
     = Inr [[(''title'', PStr ''A''), (''url'', PStr ''''), (''snippet'', PStr '''')],
            [(''title'', PStr ''C''), (''url'', PStr ''http://c''), (''snippet'', PStr '''')]]"
    by (simp add: normalize_research_def get_def py_or_def)
  have n: "2 \<le> length (filter url_less (items_of ?xs))"
    by (simp add: items_of_def url_less_def get_def)
  show ?thesis
    using v n normalize_research_url_less_once [OF v n]
    by (simp add: items_of_def url_less_def get_def evidence_item_def snippet_source_def py_or_def)
qed

section \<open>Properties of the model caller, the contracts and the pipeline\<close>

lemma cleaned_fenced: "cleaned (Some fenced_reply) = ''nope''"
  by (simp add: cleaned_def fenced_reply_def strip_def isspace_def fence_sub_def open_fence_def close_fence_def)

lemma attempt_loop_all_fail:
  assumes "retries = attempt + int k"
    and "\<forall>i\<le>k. generate_content w (n + i) model (if i = 0 then message else prompt @ ONLY_JSON) temperature
                  = Inr (reply i) \<and> json_loads w (cleaned (reply i)) = Inl (err i)"
  shows "attempt_loop w model prompt temperature retries (Suc k) attempt message n
           = (Inl (err k), n + k + 1)"
  using assms
proof (induction k arbitrary: attempt message n reply err)
  case 0
  then show ?case by simp
next
  case (Suc k)
  have first: "generate_content w n model message temperature = Inr (reply 0)"
              "json_loads w (cleaned (reply 0)) = Inl (err 0)"
    using Suc.prems(2) [rule_format, of 0] by simp_all
  have rest: "\<forall>i\<le>k. generate_content w (Suc n + i) model
                 (if i = 0 then prompt @ ONLY_JSON else prompt @ ONLY_JSON) temperature
               = Inr ((reply \<circ> Suc) i) \<and> json_loads w (cleaned ((reply \<circ> Suc) i)) = Inl ((err \<circ> Suc) i)"
    using Suc.prems(2) by (auto dest: spec [of _ "Suc _"])
  have "attempt_loop w model prompt temperature retries (Suc k) (attempt + 1) (prompt @ ONLY_JSON) (Suc n)
          = (Inl ((err \<circ> Suc) k), Suc n + k + 1)"
    using Suc.prems(1) rest
    by (intro Suc.IH [where reply = "reply \<circ> Suc" and err = "err \<circ> Suc"]) simp_all
  moreover have "attempt \<noteq> retries"
    using Suc.prems(1) by simp
  ultimately show ?case
    using first by simp
qed

text \<open>
  Claim C2, amended. With a retry budget \<open>retries\<close> of at least 0, when the service answers
  every one of the \<open>retries + 1\<close> attempts and the text of every attempt, trimmed and
  with its code fences stripped, makes the parser raise, \<^verbatim>\<open>gemini_json\<close> makes exactly
  \<open>retries + 1\<close> calls and fails with the exception the parser raised on the last
  attempt, unchanged. Where that text is not a JSON document this is the parser's
  \<^verbatim>\<open>JSONDecodeError\<close>, which carries the text that was handed to the parser: the last
  reply after trimming and fence stripping. Any other exception of the parser is
  raised as it is.
\<close>

theorem gemini_json_exhausts_retries:
  assumes "0 \<le> retries"
    and "\<forall>i\<le>nat retries. generate_content w (n + i) model (message_of prompt i) temperature = Inr (reply i)
                           \<and> loads w (cleaned (reply i)) = Inl (failure i)"
  shows "gemini_json w model prompt temperature retries n
           = (Inl (case failure (nat retries) of
                     NotJSON \<Rightarrow> JSONDecodeError (cleaned (reply (nat retries)))
                   | Raises e \<Rightarrow> e),
              n + nat retries + 1)"
proof -
  let ?err = "\<lambda>i. case failure i of NotJSON \<Rightarrow> JSONDecodeError (cleaned (reply i)) | Raises e \<Rightarrow> e"
  have k: "nat (retries + 1) = Suc (nat retries)" "retries = 0 + int (nat retries)"
    using assms(1) by simp_all
  have all: "\<forall>i\<le>nat retries. generate_content w (n + i) model
                 (if i = 0 then prompt else prompt @ ONLY_JSON) temperature = Inr (reply i)
               \<and> json_loads w (cleaned (reply i)) = Inl (?err i)"
    using assms(2) by (auto simp: message_of_def json_loads_def split: parse_failure.splits)
  show ?thesis
    unfolding gemini_json_def k(1)
    by (rule attempt_loop_all_fail [where err = ?err, OF k(2) all])
qed

theorem gemini_json_exhausts_retries_witness:
  "gemini_json deaf_services ''gemini-2.5-flash'' ''Is it so?'' (1 / 10) 2 0
     = (Inl (JSONDecodeError ''nope''), 3) \<and>
   gemini_json stack_services ''gemini-2.5-flash'' ''Is it so?'' (1 / 10) 2 0
     = (Inl RecursionError, 3)"
proof -
  have h: "\<forall>i\<le>nat 2. generate_content deaf_services (0 + i) ''gemini-2.5-flash''
                (message_of ''Is it so?'' i) (1 / 10) = Inr ((\<lambda>i. Some fenced_reply) i)
              \<and> loads deaf_services (cleaned ((\<lambda>i. Some fenced_reply) i)) = Inl ((\<lambda>i. NotJSON) i)"
    by (simp add: deaf_services_def)
  have g: "\<forall>i\<le>nat 2. generate_content stack_services (0 + i) ''gemini-2.5-flash''
                (message_of ''Is it so?'' i) (1 / 10) = Inr ((\<lambda>i. Some fenced_reply) i)
              \<and> loads stack_services (cleaned ((\<lambda>i. Some fenced_reply) i))
                  = Inl ((\<lambda>i. Raises RecursionError) i)"
    by (simp add: stack_services_def deaf_services_def)
  show ?thesis
    using gemini_json_exhausts_retries [of 2, OF _ h] gemini_json_exhausts_retries [of 2, OF _ g]
    by (simp add: cleaned_fenced)
qed

text \<open>
  Claim C2 as stated fails: when every reply is the fenced text below, the error that
  leaves \<^verbatim>\<open>gemini_json\<close> after the third attempt carries \<open>nope\<close>, the text
  after fence stripping, and not the raw reply of the service.
\<close>

theorem gemini_json_error_text_not_raw:
  "gemini_json deaf_services ''gemini-2.5-flash'' ''Is it so?'' (1 / 10) 2 0
     = (Inl (JSONDecodeError ''nope''), 3)
   \<and> generate_content deaf_services 2 ''gemini-2.5-flash'' (''Is it so?'' @ ONLY_JSON) (1 / 10)
     = Inr (Some fenced_reply)
   \<and> fenced_reply \<noteq> ''nope''"
  by (simp add: gemini_json_def json_loads_def cleaned_fenced numeral_3_eq_3 deaf_services_def)
     (simp add: fenced_reply_def)

text \<open>
  Claim C4. A parsed verdict object whose verdict field is a string outside
  true, false and unsubstantiated fails validation against \<^verbatim>\<open>VerdictOut\<close> with a
  \<^verbatim>\<open>ValidationError\<close> that reports the verdict field, whatever the other fields hold.
\<close>

theorem VerdictOut_rejects_verdict:
  assumes "map_of kw ''verdict'' = Some (PStr s)"
    and "s \<notin> {''true'', ''false'', ''unsubstantiated''}"
  shows "\<exists>es. VerdictOut (PDict kw) = Inl (ValidationError es) \<and> Invalid ''verdict'' \<in> set es"
  using assms
  by (auto simp: VerdictOut_def Let_def errors_of_def split: sum.splits option.splits)

theorem VerdictOut_rejects_verdict_witness:
  "VerdictOut (PDict [(''verdict'', PStr ''maybe''), (''explanation'', PStr ''unclear'')])
     = Inl (ValidationError [Invalid ''verdict''])"
proof -
  have "\<exists>es. VerdictOut (PDict [(''verdict'', PStr ''maybe''), (''explanation'', PStr ''unclear'')])
          = Inl (ValidationError es) \<and> Invalid ''verdict'' \<in> set es"
    by (rule VerdictOut_rejects_verdict [where s = "''maybe''"]) simp_all
  then show ?thesis
    by (simp add: VerdictOut_def Let_def errors_of_def as_str_def)
qed

lemma run_from_step:
  "nd \<noteq> N_END \<Longrightarrow> 0 < fuel \<Longrightarrow>
   run_from fuel w thread_id nd sn memory =
     (case run_node w nd sn of Inl e \<Rightarrow> (Inl e, memory)
      | Inr sn' \<Rightarrow>
          run_from (fuel - 1) w thread_id (next_node nd (fst sn')) sn' (memory(thread_id \<mapsto> fst sn')))"
  by (cases nd; cases fuel) (auto split: sum.splits)

lemma GRAPH_invoke_unfold:
  "GRAPH_invoke w memory n init_state thread_id =
     (case classify_claim w (apply_input (memory thread_id) init_state, n) of
        Inl e \<Rightarrow> (Inl e, memory(thread_id \<mapsto> apply_input (memory thread_id) init_state))
      | Inr sn1 \<Rightarrow>
          if is_claim (fst sn1) = Some True
          then (case research_with_tavily w sn1 of
                  Inl e \<Rightarrow> (Inl e, memory(thread_id \<mapsto> fst sn1))
                | Inr sn2 \<Rightarrow>
                    (case assess_claim w sn2 of
                       Inl e \<Rightarrow> (Inl e, memory(thread_id \<mapsto> fst sn2))
                     | Inr sn3 \<Rightarrow> (Inr sn3, memory(thread_id \<mapsto> fst sn3))))
          else (Inr sn1, memory(thread_id \<mapsto> fst sn1)))"
  unfolding GRAPH_invoke_def Let_def
  by (simp add: run_from_step route_from_classify_def finalize_def split: sum.splits)

lemma start_state_fields:
  "input_text (start_state memory text thread_id) = text"
  "research (start_state memory text thread_id) = Option.bind (memory thread_id) research"
  "citations (start_state memory text thread_id) = Option.bind (memory thread_id) citations"
  by (simp_all add: start_state_def apply_input_def init_state_of_def or_saved_def split: option.splits)


lemma start_state_fresh: "start_state Map.empty text thread_id = init_state_of text"
  by (simp add: start_state_def apply_input_def)

lemma GRAPH_invoke_not_claim:
  assumes "classify_claim w (start_state memory text thread_id, n) = Inr (s1, n1)"
    and "is_claim s1 \<noteq> Some True"
  shows "GRAPH_invoke w memory n (init_state_of text) thread_id
           = (Inr (s1, n1), memory(thread_id \<mapsto> s1))"
  using assms by (simp add: GRAPH_invoke_unfold start_state_def [symmetric])

lemma GRAPH_invoke_claim:
  assumes "classify_claim w (start_state memory text thread_id, n) = Inr (s1, n1)"
    and "is_claim s1 = Some True"
    and "research_with_tavily w (s1, n1) = Inr (s2, n2)"
  shows "GRAPH_invoke w memory n (init_state_of text) thread_id
           = (case assess_claim w (s2, n2) of
                Inl e \<Rightarrow> (Inl e, memory(thread_id \<mapsto> s2))
              | Inr sn3 \<Rightarrow> (Inr sn3, memory(thread_id \<mapsto> fst sn3)))"
  using assms by (simp add: GRAPH_invoke_unfold start_state_def [symmetric] split: sum.splits)

lemma classify_not_claim:
  assumes "gemini_json w GEMINI_CLASSIFY_MODEL (classify_prompt w (input_text st)) (1 / 10) 2 n = (Inr raw, n')"
    and "ClaimJudge raw = Inr judged" and "\<not> judge_is_claim judged"
  shows "classify_claim w (st, n) =
           Inr (st\<lparr>is_claim := Some False, claim_reason := Some (judge_reason judged),
                   verdict := Some ''not_a_claim'', explanation := Some (judge_reason judged)\<rparr>, n')"
  using assms by (simp add: classify_claim_def)

lemma classify_is_claim:
  assumes "gemini_json w GEMINI_CLASSIFY_MODEL (classify_prompt w (input_text st)) (1 / 10) 2 n = (Inr raw, n')"
    and "ClaimJudge raw = Inr judged" and "judge_is_claim judged"
  shows "classify_claim w (st, n) =
           Inr (st\<lparr>is_claim := Some True, claim_reason := Some (judge_reason judged)\<rparr>, n')"
  using assms by (simp add: classify_claim_def)



lemma assess_valid:
  assumes "gemini_json w GEMINI_ASSESS_MODEL (assess_prompt w st) (2 / 10) 2 n = (Inr raw, n')"
    and "VerdictOut raw = Inr v"
  shows "assess_claim w (st, n) =
           Inr (st\<lparr>verdict := Some (out_verdict v),
                   explanation := Some (Some (out_explanation v)),
                   citations := Some (if out_citations v \<noteq> [] then out_citations v
                                      else map title_url (research_or_empty st))\<rparr>, n')"
  using assms by (simp add: assess_claim_def)

lemma VerdictOut_verdict:
  "VerdictOut raw = Inr v \<Longrightarrow> out_verdict v \<in> {''true'', ''false'', ''unsubstantiated''}"
  by (auto simp: VerdictOut_def Let_def split: pyval.splits sum.splits option.splits if_splits)

text \<open>
  Claim C1, amended. When the classification stage yields \<open>is_claim = false\<close> (the model
  call returns a parsed object that validates as a \<^verbatim>\<open>ClaimJudge\<close> with a false flag),
  the runner returns the response with status \<^verbatim>\<open>not_a_claim\<close> and the classification
  reason, whatever the checkpointer holds, and the run does not touch the research and
  citations keys: the final state holds for them what the checkpointer had saved for
  the thread before the invocation, which on a fresh thread is nothing.
\<close>

theorem not_a_claim_short_circuit:
  assumes "gemini_json w GEMINI_CLASSIFY_MODEL (classify_prompt w text) (1 / 10) 2 n = (Inr raw, n')"
    and "ClaimJudge raw = Inr judged"
    and "\<not> judge_is_claim judged"
  shows "fst (run_agent w memory n text thread_id) = Inr (NotAClaim (judge_reason judged)) \<and>
         (\<exists>final. fst (GRAPH_invoke w memory n (init_state_of text) thread_id) = Inr (final, n') \<and>
                   research final = Option.bind (memory thread_id) research \<and>
                   citations final = Option.bind (memory thread_id) citations \<and>
                   (memory thread_id = None \<longrightarrow> research final = None \<and> citations final = None))"
proof -
  let ?start = "start_state memory text thread_id"
  let ?final = "?start\<lparr>is_claim := Some False, claim_reason := Some (judge_reason judged),
                   verdict := Some ''not_a_claim'', explanation := Some (judge_reason judged)\<rparr>"
  have c: "classify_claim w (?start, n) = Inr (?final, n')"
    using assms by (intro classify_not_claim) (simp_all add: start_state_fields)
  have g: "GRAPH_invoke w memory n (init_state_of text) thread_id
             = (Inr (?final, n'), memory(thread_id \<mapsto> ?final))"
    by (rule GRAPH_invoke_not_claim [OF c]) simp
  have r: "research ?final = Option.bind (memory thread_id) research"
          "citations ?final = Option.bind (memory thread_id) citations"
    by (simp_all add: start_state_fields)
  have response: "fst (run_agent w memory n text thread_id) = Inr (NotAClaim (judge_reason judged))"
    by (simp add: run_agent_def g get_opt_def)
  have state: "fst (GRAPH_invoke w memory n (init_state_of text) thread_id) = Inr (?final, n') \<and>
               research ?final = Option.bind (memory thread_id) research \<and>
               citations ?final = Option.bind (memory thread_id) citations \<and>
               (memory thread_id = None \<longrightarrow> research ?final = None \<and> citations ?final = None)"
    by (simp add: g r)
  show ?thesis
    by (rule conjI [OF response]) (rule exI [of _ ?final], rule state)
qed

lemma scripted_fields:
  "generate_content (scripted replies) n model prompt temperature
     = Inr (if n < length replies then Some (replies ! n) else None)"
  "loads (scripted replies) text = (case toy_loads text of None \<Rightarrow> Inl NotJSON | Some v \<Rightarrow> Inr v)"
  "tavily_search (scripted replies) query k = Inr [(''results'', Some toy_hits)]"
  "str_of_errors (scripted replies) es = ''invalid fields''"
  by (simp_all add: scripted_def)

lemma cleaned_plain:
  "cleaned (Some ''{is_claim: false, reason: filler}'') = ''{is_claim: false, reason: filler}''"
  "cleaned (Some ''{is_claim: true}'') = ''{is_claim: true}''"
  "cleaned (Some ''{reason: filler}'') = ''{reason: filler}''"
  "cleaned (Some ''{verdict: true, explanation: yes, citations: []}'')
     = ''{verdict: true, explanation: yes, citations: []}''"
  "cleaned (Some ''{verdict: maybe, explanation: yes}'') = ''{verdict: maybe, explanation: yes}''"
  by (simp_all add: cleaned_def strip_def isspace_def fence_sub_def open_fence_def close_fence_def)

lemma gemini_json_first_reply:
  assumes "generate_content w n model prompt temperature = Inr t"
    and "loads w (cleaned t) = Inr v"
  shows "gemini_json w model prompt temperature 2 n = (Inr v, Suc n)"
  using assms by (simp add: gemini_json_def json_loads_def numeral_3_eq_3)

lemma gemini_json_scripted:
  assumes "n < length replies"
    and "toy_loads (cleaned (Some (replies ! n))) = Some v"
  shows "gemini_json (scripted replies) model prompt temperature 2 n = (Inr v, Suc n)"
  using assms by (intro gemini_json_first_reply [where t = "Some (replies ! n)"]) (simp_all add: scripted_fields)

lemma research_scripted:
  "research_with_tavily (scripted replies) (st, n) =
     Inr (st\<lparr>research := Some [[(''title'', PStr ''A''), (''url'', PStr ''http://a''), (''snippet'', PStr ''blue'')],
                                  [(''title'', PStr ''B''), (''url'', PStr ''http://b''), (''snippet'', PStr ''sky'')]]\<rparr>, n)"
  by (simp add: research_with_tavily_def scripted_fields toy_hits_def normalize_research_def get_def py_or_def)

lemma classify_scripted_claim:
  assumes "n < length replies" and "replies ! n = ''{is_claim: true}''"
  shows "classify_claim (scripted replies) (st, n)
           = Inr (st\<lparr>is_claim := Some True, claim_reason := Some None\<rparr>, Suc n)"
proof -
  have "gemini_json (scripted replies) GEMINI_CLASSIFY_MODEL
          (classify_prompt (scripted replies) (input_text st)) (1 / 10) 2 n
          = (Inr (PDict [(''is_claim'', PBool True)]), Suc n)"
    using assms by (intro gemini_json_scripted) (simp_all add: cleaned_plain toy_loads_def)
  moreover have "ClaimJudge (PDict [(''is_claim'', PBool True)])
                   = Inr \<lparr>judge_is_claim = True, judge_reason = None\<rparr>"
    by (simp add: ClaimJudge_def as_bool_def)
  ultimately show ?thesis
    by (simp add: classify_is_claim)
qed

theorem not_a_claim_short_circuit_witness:
  "fst (run_agent (scripted [''{is_claim: false, reason: filler}'']) Map.empty 0
          ''Let me see how we say that.'' ''session'')
     = Inr (NotAClaim (Some ''filler, no assertion''))"
proof -
  let ?w = "scripted [''{is_claim: false, reason: filler}'']"
  let ?raw = "PDict [(''is_claim'', PBool False), (''reason'', PStr ''filler, no assertion'')]"
  let ?judged = "\<lparr>judge_is_claim = False, judge_reason = Some ''filler, no assertion''\<rparr>"
  have h1: "gemini_json ?w GEMINI_CLASSIFY_MODEL (classify_prompt ?w ''Let me see how we say that.'')
              (1 / 10) 2 0 = (Inr ?raw, Suc 0)"
    by (rule gemini_json_scripted) (simp_all add: cleaned_plain toy_loads_def)
  have h2: "ClaimJudge ?raw = Inr ?judged"
    by (simp add: ClaimJudge_def as_bool_def as_str_def)
  have h3: "\<not> judge_is_claim ?judged"
    by simp
  show ?thesis
    using not_a_claim_short_circuit [OF h1 h2 h3, of Map.empty "''session''"] by simp
qed

text \<open>
  Claim C1 as stated fails on a thread that has run before. On the thread
  \<open>session\<close> a first text is classified as a claim and fact-checked, which stores two
  research items and two citations; a second text on the same thread is classified as
  not a claim, the response is \<^verbatim>\<open>not_a_claim\<close>, and the final state of that run still
  holds the research and the citations of the first.
\<close>

theorem not_a_claim_keeps_saved_research:
  "fst (run_agent two_runs Map.empty 0 ''The sky is blue.'' ''session'')
     = Inr (FactChecked (Some ''true'') (Some ''yes'')
              (Some [[(''title'', PStr ''A''), (''url'', PStr ''http://a'')],
                     [(''title'', PStr ''B''), (''url'', PStr ''http://b'')]])) \<and>
   fst (run_agent two_runs session_memory 2 ''Is that okay?'' ''session'')
     = Inr (NotAClaim (Some ''filler, no assertion'')) \<and>
   fst (GRAPH_invoke two_runs session_memory 2 (init_state_of ''Is that okay?'') ''session'')
     = Inr (\<lparr>input_text = ''Is that okay?'', is_claim = Some False,
              claim_reason = Some (Some ''filler, no assertion''),
              research = Some [[(''title'', PStr ''A''), (''url'', PStr ''http://a''), (''snippet'', PStr ''blue'')],
                               [(''title'', PStr ''B''), (''url'', PStr ''http://b''), (''snippet'', PStr ''sky'')]],
              verdict = Some ''not_a_claim'',
              explanation = Some (Some ''filler, no assertion''),
              citations = Some [[(''title'', PStr ''A''), (''url'', PStr ''http://a'')],
                                [(''title'', PStr ''B''), (''url'', PStr ''http://b'')]]\<rparr>, 3)"
proof -
  let ?rs = "[[(''title'', PStr ''A''), (''url'', PStr ''http://a''), (''snippet'', PStr ''blue'')],
              [(''title'', PStr ''B''), (''url'', PStr ''http://b''), (''snippet'', PStr ''sky'')]]"
  let ?cs = "[[(''title'', PStr ''A''), (''url'', PStr ''http://a'')],
              [(''title'', PStr ''B''), (''url'', PStr ''http://b'')]]"
  let ?s1 = "(init_state_of ''The sky is blue.'')\<lparr>is_claim := Some True, claim_reason := Some None\<rparr>"
  let ?s2 = "?s1\<lparr>research := Some ?rs\<rparr>"
  let ?s3 = "?s2\<lparr>verdict := Some ''true'', explanation := Some (Some ''yes''), citations := Some ?cs\<rparr>"
  let ?raw = "PDict [(''verdict'', PStr ''true''), (''explanation'', PStr ''yes''), (''citations'', PList [])]"
  have b1: "classify_claim two_runs (start_state Map.empty ''The sky is blue.'' ''session'', 0) = Inr (?s1, Suc 0)"
    unfolding two_runs_def start_state_fresh by (rule classify_scripted_claim) simp_all
  have b3: "research_with_tavily two_runs (?s1, Suc 0) = Inr (?s2, Suc 0)"
    unfolding two_runs_def by (rule research_scripted)
  have b6: "gemini_json two_runs GEMINI_ASSESS_MODEL (assess_prompt two_runs ?s2) (2 / 10) 2 (Suc 0)
              = (Inr ?raw, Suc (Suc 0))"
    unfolding two_runs_def by (rule gemini_json_scripted) (simp_all add: cleaned_plain toy_loads_def)
  have b7: "VerdictOut ?raw = Inr \<lparr>out_verdict = ''true'', out_explanation = ''yes'', out_citations = []\<rparr>"
    by (simp add: VerdictOut_def as_str_def as_citations_def)
  have a: "assess_claim two_runs (?s2, Suc 0) = Inr (?s3, Suc (Suc 0))"
    using assess_valid [OF b6 b7]
    by (simp add: research_or_empty_def title_url_def get_default_def)
  have g1: "GRAPH_invoke two_runs Map.empty 0 (init_state_of ''The sky is blue.'') ''session''
              = (Inr (?s3, Suc (Suc 0)), Map.empty(''session'' \<mapsto> ?s3))"
    using GRAPH_invoke_claim [OF b1 _ b3] a by simp
  have m: "session_memory = Map.empty(''session'' \<mapsto> ?s3)"
    by (simp add: session_memory_def run_agent_def g1)
  have first: "fst (run_agent two_runs Map.empty 0 ''The sky is blue.'' ''session'')
                 = Inr (FactChecked (Some ''true'') (Some ''yes'') (Some ?cs))"
    by (simp add: run_agent_def g1 get_opt_def)
  let ?start = "start_state session_memory ''Is that okay?'' ''session''"
  let ?rawc = "PDict [(''is_claim'', PBool False), (''reason'', PStr ''filler, no assertion'')]"
  have st: "?start = ?s3\<lparr>input_text := ''Is that okay?''\<rparr>"
    by (simp add: m start_state_def apply_input_def init_state_of_def or_saved_def)
  have c1: "gemini_json two_runs GEMINI_CLASSIFY_MODEL (classify_prompt two_runs (input_text ?start))
              (1 / 10) 2 2 = (Inr ?rawc, Suc 2)"
    unfolding two_runs_def by (rule gemini_json_scripted) (simp_all add: cleaned_plain toy_loads_def)
  have c2: "ClaimJudge ?rawc = Inr \<lparr>judge_is_claim = False, judge_reason = Some ''filler, no assertion''\<rparr>"
    by (simp add: ClaimJudge_def as_bool_def as_str_def)
  have c: "classify_claim two_runs (?start, 2)
             = Inr (?start\<lparr>is_claim := Some False, claim_reason := Some (Some ''filler, no assertion''),
                     verdict := Some ''not_a_claim'',
                     explanation := Some (Some ''filler, no assertion'')\<rparr>, Suc 2)"
    using classify_not_claim [OF c1 c2] by simp
  have g2: "GRAPH_invoke two_runs session_memory 2 (init_state_of ''Is that okay?'') ''session''
              = (Inr (?start\<lparr>is_claim := Some False, claim_reason := Some (Some ''filler, no assertion''),
                     verdict := Some ''not_a_claim'',
                     explanation := Some (Some ''filler, no assertion'')\<rparr>, Suc 2),
                 session_memory(''session'' \<mapsto> ?start\<lparr>is_claim := Some False,
                     claim_reason := Some (Some ''filler, no assertion''),
                     verdict := Some ''not_a_claim'',
                     explanation := Some (Some ''filler, no assertion'')\<rparr>))"
    by (rule GRAPH_invoke_not_claim [OF c]) simp
  have second: "fst (run_agent two_runs session_memory 2 ''Is that okay?'' ''session'')
                 = Inr (NotAClaim (Some ''filler, no assertion''))"
    by (simp add: run_agent_def g2 get_opt_def)
  have third: "fst (GRAPH_invoke two_runs session_memory 2 (init_state_of ''Is that okay?'') ''session'')
     = Inr (\<lparr>input_text = ''Is that okay?'', is_claim = Some False,
              claim_reason = Some (Some ''filler, no assertion''),
              research = Some ?rs, verdict = Some ''not_a_claim'',
              explanation = Some (Some ''filler, no assertion''),
              citations = Some ?cs\<rparr>, 3)"
    by (simp add: g2 st)
  show ?thesis
    using first second third by simp
qed




lemma research_sets_items:
  assumes "research_with_tavily w (s1, n1) = Inr (s2, n2)"
  shows "\<exists>items rs. research s2 = Some rs \<and> normalize_research items = Inr rs"
  using assms
  by (auto simp: research_with_tavily_def split: sum.splits)

lemma title_url_evidence_item:
  "title_url (evidence_item h) =
     [(''title'', get (evidence_item h) ''title''), (''url'', get (evidence_item h) ''url'')]"
  by (simp add: title_url_def get_default_def get_def evidence_item_def)

lemma normalized_are_items:
  assumes "normalize_research items = Inr rs" and "r \<in> set rs"
  shows "\<exists>h. r = evidence_item h"
proof -
  have "rs = keep_unseen {} (map evidence_item (items_of items))"
    using assms(1) by (simp add: normalize_research_char keep_unseen_first_occurrences split: if_splits)
  then show ?thesis
    using assms(2) keep_unseen_subset [of "{}" "map evidence_item (items_of items)"] by auto
qed

text \<open>
  Claim C5. In a run where the text is classified as a claim, the research stage stores
  a non-empty list and the adjudication reply validates with an empty citations list,
  the response is \<^verbatim>\<open>fact_checked\<close> and its citations are the title and url of every
  research item, in the order of the research list. This holds on a fresh thread and
  on a reused one.
\<close>

theorem citations_fallback:
  assumes "classify_claim w (start_state memory text thread_id, n) = Inr (s1, n1)"
    and "is_claim s1 = Some True"
    and "research_with_tavily w (s1, n1) = Inr (s2, n2)"
    and "research s2 = Some rs"
    and "rs \<noteq> []"
    and "gemini_json w GEMINI_ASSESS_MODEL (assess_prompt w s2) (2 / 10) 2 n2 = (Inr raw, n3)"
    and "VerdictOut raw = Inr v"
    and "out_citations v = []"
  shows "fst (run_agent w memory n text thread_id) =
           Inr (FactChecked (Some (out_verdict v)) (Some (out_explanation v))
                  (Some (map (\<lambda>r. [(''title'', get r ''title''), (''url'', get r ''url'')]) rs)))"
proof -
  obtain items where "normalize_research items = Inr rs"
    using research_sets_items [OF assms(3)] assms(4) by auto
  then have "\<forall>r \<in> set rs. \<exists>h. r = evidence_item h"
    using normalized_are_items by blast
  then have pairs: "map title_url rs = map (\<lambda>r. [(''title'', get r ''title''), (''url'', get r ''url'')]) rs"
    by (auto simp: title_url_evidence_item)
  have a: "assess_claim w (s2, n2) =
             Inr (s2\<lparr>verdict := Some (out_verdict v),
                     explanation := Some (Some (out_explanation v)),
                     citations := Some (map title_url rs)\<rparr>, n3)"
    using assess_valid [OF assms(6) assms(7)] assms(4) assms(8)
    by (simp add: research_or_empty_def)
  have "out_verdict v \<noteq> ''not_a_claim''"
    using VerdictOut_verdict [OF assms(7)] by auto
  then show ?thesis
    using GRAPH_invoke_claim [OF assms(1,2,3)] a by (simp add: run_agent_def get_opt_def pairs)
qed

theorem citations_fallback_witness:
  "fst (run_agent (scripted [''{is_claim: true}'', ''{verdict: true, explanation: yes, citations: []}''])
          Map.empty 0 ''The sky is blue.'' ''session'')
     = Inr (FactChecked (Some ''true'') (Some ''yes'')
              (Some [[(''title'', PStr ''A''), (''url'', PStr ''http://a'')],
                     [(''title'', PStr ''B''), (''url'', PStr ''http://b'')]]))"
proof -
  let ?w = "scripted [''{is_claim: true}'', ''{verdict: true, explanation: yes, citations: []}'']"
  let ?s1 = "(init_state_of ''The sky is blue.'')\<lparr>is_claim := Some True, claim_reason := Some None\<rparr>"
  let ?rs = "[[(''title'', PStr ''A''), (''url'', PStr ''http://a''), (''snippet'', PStr ''blue'')],
              [(''title'', PStr ''B''), (''url'', PStr ''http://b''), (''snippet'', PStr ''sky'')]]"
  let ?s2 = "?s1\<lparr>research := Some ?rs\<rparr>"
  let ?raw = "PDict [(''verdict'', PStr ''true''), (''explanation'', PStr ''yes''), (''citations'', PList [])]"
  let ?v = "\<lparr>out_verdict = ''true'', out_explanation = ''yes'', out_citations = []\<rparr>"
  have b1: "classify_claim ?w (start_state Map.empty ''The sky is blue.'' ''session'', 0) = Inr (?s1, Suc 0)"
    unfolding start_state_fresh by (rule classify_scripted_claim) simp_all
  have b2: "is_claim ?s1 = Some True" by simp
  have b3: "research_with_tavily ?w (?s1, Suc 0) = Inr (?s2, Suc 0)"
    by (rule research_scripted)
  have b4: "research ?s2 = Some ?rs" by simp
  have b5: "?rs \<noteq> []" by simp
  have b6: "gemini_json ?w GEMINI_ASSESS_MODEL (assess_prompt ?w ?s2) (2 / 10) 2 (Suc 0)
              = (Inr ?raw, Suc (Suc 0))"
    by (rule gemini_json_scripted) (simp_all add: cleaned_plain toy_loads_def)
  have b7: "VerdictOut ?raw = Inr ?v"
    by (simp add: VerdictOut_def as_str_def as_citations_def)
  have b8: "out_citations ?v = []" by simp
  show ?thesis
    using citations_fallback [OF b1 b2 b3 b4 b5 b6 b7 b8] by (simp add: get_def)
qed

lemma those_as_str_dict:
  "those (map as_str_dict cs) = Some ds \<Longrightarrow> cs = map PDict ds"
proof (induction cs arbitrary: ds)
  case Nil
  then show ?case by simp
next
  case (Cons c cs)
  then show ?case
    by (auto simp: as_str_dict_def split: option.splits pyval.splits if_splits)
qed

text \<open>
  Claim C9 as stated fails: a citation with a field other than title and url validates,
  and the validated citation still has that field.
\<close>

theorem VerdictOut_keeps_unknown_fields:
  "VerdictOut (PDict [(''verdict'', PStr ''true''), (''explanation'', PStr ''ok''),
                      (''citations'', PList [PDict [(''title'', PStr ''A''), (''url'', PStr ''http://a''),
                                                    (''rank'', PStr ''1'')]])])
     = Inr \<lparr>out_verdict = ''true'', out_explanation = ''ok'',
            out_citations = [[(''title'', PStr ''A''), (''url'', PStr ''http://a''), (''rank'', PStr ''1'')]]\<rparr>"
  by (simp add: VerdictOut_def as_str_def as_citations_def as_str_dict_def)

text \<open>
  Claim C9, amended. When a parsed verdict object validates against \<^verbatim>\<open>VerdictOut\<close>,
  an absent citations field defaults to the empty list, and a present one is a list of
  dicts with string values that is kept as it is: no field of a citation is dropped.
\<close>

theorem VerdictOut_citations:
  assumes "VerdictOut (PDict kw) = Inr v"
  shows "(map_of kw ''citations'' = None \<longrightarrow> out_citations v = []) \<and>
         (\<forall>cs. map_of kw ''citations'' = Some cs \<longrightarrow> cs = PList (map PDict (out_citations v)))"
  using assms
  by (auto simp: VerdictOut_def Let_def as_citations_def those_as_str_dict
           split: sum.splits option.splits pyval.splits if_splits)

theorem VerdictOut_citations_witness:
  "VerdictOut (PDict [(''verdict'', PStr ''false''), (''explanation'', PStr ''no'')])
     = Inr \<lparr>out_verdict = ''false'', out_explanation = ''no'', out_citations = []\<rparr> \<and>
   out_citations \<lparr>out_verdict = ''false'', out_explanation = ''no'', out_citations = []\<rparr> = []"
proof -
  have h: "VerdictOut (PDict [(''verdict'', PStr ''false''), (''explanation'', PStr ''no'')])
     = Inr \<lparr>out_verdict = ''false'', out_explanation = ''no'', out_citations = []\<rparr>"
    by (simp add: VerdictOut_def as_str_def)
  show ?thesis
    using h VerdictOut_citations [OF h] by simp
qed

end
